theory Spec2Isabelle
  imports Complex_Main "HOL-Library.Word" "HOL-Library.Log_Nat"
begin

unbundle bit_operations_syntax

section \<open>Coordinate mapper (\<open>include/eos/render/utils.hpp\<close>, lines 48--80)\<close>

text \<open>
  A \<open>cv::Vec2f\<close> is a pair of coordinates. The arithmetic of the two window
  transforms is modelled over the rationals: rounding of single-precision floats is
  not part of the model. The screen size is a C++ \<open>int\<close>; the only thing done with it
  is the conversion to a floating-point number, which is \<open>of_int\<close> here.
\<close>

type_synonym Vec2f = "rat \<times> rat"

definition clip_to_screen_space :: "Vec2f \<Rightarrow> int \<Rightarrow> int \<Rightarrow> Vec2f" where
  "clip_to_screen_space clip_coordinates screen_width screen_height =
     (let x_ss = (fst clip_coordinates + 1) * (of_int screen_width / 2);
          y_ss = of_int screen_height - (snd clip_coordinates + 1) * (of_int screen_height / 2)
      in (x_ss, y_ss))"

definition screen_to_clip_space :: "Vec2f \<Rightarrow> int \<Rightarrow> int \<Rightarrow> Vec2f" where
  "screen_to_clip_space screen_coordinates screen_width screen_height =
     (let x_cs = fst screen_coordinates / (of_int screen_width / 2) - 1;
          y_cs = snd screen_coordinates / (of_int screen_height / 2) - 1;
          y_cs = y_cs * (- 1)
      in (x_cs, y_cs))"

section \<open>Mipmap level count and the power-of-two test (lines 83--102)\<close>

text \<open>
  \<open>unsigned int\<close> and \<open>int\<close> are 32-bit words. Arithmetic on a word wraps around,
  \<open><\<close> and \<open>\<le>\<close> compare unsigned values, \<open><s\<close> and \<open>\<le>s\<close> compare
  two's-complement values, and \<open>sint\<close> reads a word as a signed integer.

  The \<open>do \<dots> while (size != 1)\<close> loop of \<open>get_max_possible_mipmaps_num\<close> need not
  terminate, so it is a partial function: \<open>None\<close> stands for a call that never returns.
\<close>

partial_function (option) shift_until_one :: "32 word \<Rightarrow> 32 word \<Rightarrow> 32 word option" where
  "shift_until_one sz mipmapsNum =
     (let sz = drop_bit 1 sz; mipmapsNum = mipmapsNum + 1
      in if sz \<noteq> 1 then shift_until_one sz mipmapsNum else Some mipmapsNum)"

declare shift_until_one.simps [code]

definition get_max_possible_mipmaps_num :: "32 word \<Rightarrow> 32 word \<Rightarrow> 32 word option" where
  "get_max_possible_mipmaps_num width height =
     (let mipmapsNum = 1; sz = max width height
      in if sz = 1 then Some 1 else shift_until_one sz mipmapsNum)"

text \<open>
  \<open>is_power_of_two\<close> takes an \<open>int\<close>. On the smallest \<open>int\<close> the subtraction
  overflows, which C++ leaves undefined and the model wraps around; the number of columns or
  rows of a \<open>cv::Mat\<close> is never negative.
\<close>

definition is_power_of_two :: "32 word \<Rightarrow> bool" where
  "is_power_of_two x = (x AND (x - 1) = 0)"

section \<open>Images, the image library, and the texture (lines 104--160)\<close>

text \<open>
  Of a \<open>cv::Mat\<close> the builder reads and decides only the header: the number of columns
  and rows (C++ \<open>int\<close>), the number of channels and the element depth. Pixel contents are
  computed by OpenCV alone and are not part of the model.
\<close>

datatype cv_depth = CV_8U | CV_8S | CV_16U | CV_16S | CV_32S | CV_32F | CV_64F

record Mat =
  cols :: "32 word"
  rows :: "32 word"
  channels :: nat
  depth :: cv_depth

type_synonym mat_type = "cv_depth \<times> nat"

definition CV_8UC3 :: mat_type where
  "CV_8UC3 = (CV_8U, 3)"

definition CV_8UC4 :: mat_type where
  "CV_8UC4 = (CV_8U, 4)"

text \<open>The constructor \<open>cv::Mat(rows, cols, type)\<close> and \<open>Mat::size()\<close>, a (width, height) pair.\<close>

definition Mat_new :: "32 word \<Rightarrow> 32 word \<Rightarrow> mat_type \<Rightarrow> Mat" where
  "Mat_new r c t = \<lparr>cols = c, rows = r, channels = snd t, depth = fst t\<rparr>"

definition Mat_size :: "Mat \<Rightarrow> 32 word \<times> 32 word" where
  "Mat_size m = (cols m, rows m)"

datatype color_code = CV_BGR2BGRA | CV_BGR2GRAY

text \<open>
  What the builder calls but does not implement is a parameter of the model:
  \<^item> \<open>convertTo m t\<close> is \<open>m.convertTo(m, t)\<close>, \<open>cvtColor m code\<close> is
    \<open>cv::cvtColor(m, m, code)\<close> and \<open>resize src dsize\<close> is \<open>cv::resize(src, dst, dsize)\<close>;
    each returns the matrix written, or \<open>None\<close> when OpenCV throws a \<open>cv::Exception\<close>;
  \<^item> \<open>log_uchar c\<close> is the value of \<open>(uchar)(std::log(c) / CV_LOG2 + 0.0001f)\<close>, a
    computation in floating-point arithmetic.
\<close>

record env =
  convertTo :: "Mat \<Rightarrow> mat_type \<Rightarrow> Mat option"
  cvtColor :: "Mat \<Rightarrow> color_code \<Rightarrow> Mat option"
  resize :: "Mat \<Rightarrow> 32 word \<times> 32 word \<Rightarrow> Mat option"
  log_uchar :: "32 word \<Rightarrow> 8 word"

text \<open>
  The two exceptions that leave \<open>create_mipmapped_texture\<close>: the \<open>std::runtime_error\<close> of
  line 126 with its message (the specification's \<open>InvalidDimensions\<close>) and a
  \<open>cv::Exception\<close> passing through from OpenCV (its \<open>ImageProcessingFailure\<close>).
\<close>

datatype exn = Runtime_error string | Cv_Exception

abbreviation InvalidDimensions :: exn where
  "InvalidDimensions \<equiv>
     Runtime_error ''Error: Couldn't generate mipmaps, width or height not power of two.''"

abbreviation ImageProcessingFailure :: exn where
  "ImageProcessingFailure \<equiv> Cv_Exception"

record Texture =
  mipmaps :: "Mat list"
  widthLog :: "8 word"
  heightLog :: "8 word"
  mipmaps_num :: "32 word"

text \<open>
  The \<open>for\<close> loop of lines 134--149. The counter \<open>i\<close> is an \<open>int\<close> compared with the
  \<open>unsigned int\<close> field \<open>mipmaps_num\<close>, hence an unsigned comparison. The loop works on
  the object itself: each level is appended to \<open>this->mipmaps\<close> as soon as it is made, and
  an exception leaves the object as it is at that moment. \<open>mipmaps[i - 1]\<close> indexes the
  whole vector. \<open>>>=\<close> on an \<open>int\<close> is the arithmetic shift. Allocating
  \<open>currMipMap\<close> and resizing into it are one step of the model, \<open>resize\<close>, which
  gets the size of \<open>currMipMap\<close> as its target size.
\<close>

function mipmap_loop ::
  "env \<Rightarrow> Mat \<Rightarrow> 32 word \<Rightarrow> 32 word \<Rightarrow> 32 word \<Rightarrow> Texture \<Rightarrow> (exn + unit) \<times> Texture" where
  "mipmap_loop cv img i currWidth currHeight this =
     (if i < mipmaps_num this then
        (case (if i = 0 then Some img
               else let currMipMap = Mat_new currHeight currWidth CV_8UC4
                    in resize cv (mipmaps this ! unat (i - 1)) (Mat_size currMipMap)) of
           None \<Rightarrow> (Inl Cv_Exception, this)
         | Some m \<Rightarrow>
             mipmap_loop cv img (i + 1)
               (if 1 <s currWidth then signed_drop_bit 1 currWidth else currWidth)
               (if 1 <s currHeight then signed_drop_bit 1 currHeight else currHeight)
               (this\<lparr>mipmaps := mipmaps this @ [m]\<rparr>))
      else (Inr (), this))"
  by pat_completeness auto
termination
proof (relation "measure (\<lambda>(cv, img, i, currWidth, currHeight, this).
                            unat (mipmaps_num this) - unat i)")
  show "wf (measure (\<lambda>(cv, img, i, currWidth, currHeight, this).
                       unat (mipmaps_num this) - unat i))"
    by simp
next
  fix cv :: env and img :: Mat and i currWidth currHeight :: "32 word"
    and this :: Texture and m :: Mat
  assume lt: "i < mipmaps_num this"
  then have less: "unat i < unat (mipmaps_num this)" by (simp add: word_less_nat_alt)
  moreover have "unat (mipmaps_num this) < 2 ^ LENGTH(32)" by (rule unsigned_less)
  ultimately have "unat i + unat (1 :: 32 word) < 2 ^ LENGTH(32)" by simp
  then have "unat (i + 1) = unat i + unat (1 :: 32 word)" by (simp only: unat_add_lem)
  with less show "((cv, img, i + 1,
          if 1 <s currWidth then signed_drop_bit 1 currWidth else currWidth,
          if 1 <s currHeight then signed_drop_bit 1 currHeight else currHeight,
          this\<lparr>mipmaps := mipmaps this @ [m]\<rparr>),
         cv, img, i, currWidth, currHeight, this)
        \<in> measure (\<lambda>(cv, img, i, currWidth, currHeight, this).
                      unat (mipmaps_num this) - unat i)"
    by simp
qed

declare mipmap_loop.simps [simp del]

text \<open>
  \<open>create_mipmapped_texture\<close> (lines 110--152), a method of \<open>Texture\<close>: it takes the
  object \<open>this\<close> and returns the outcome, normal or an exception, together with the object
  as the call leaves it. The result is \<open>None\<close> when the call does not return.
  \<open>mipmaps_num\<close> is assigned before the dimensions are checked.
\<close>

definition create_mipmapped_texture ::
  "env \<Rightarrow> Texture \<Rightarrow> Mat \<Rightarrow> 32 word \<Rightarrow> ((exn + unit) \<times> Texture) option" where
  "create_mipmapped_texture cv this img mipmapsNum =
     (case (if mipmapsNum = 0 then get_max_possible_mipmaps_num (cols img) (rows img)
            else Some mipmapsNum) of
        None \<Rightarrow> None
      | Some n \<Rightarrow>
          Some (let this = this\<lparr>mipmaps_num := n\<rparr> in
            if 1 < mipmaps_num this
               \<and> (\<not> is_power_of_two (cols img) \<or> \<not> is_power_of_two (rows img))
            then (Inl InvalidDimensions, this)
            else (case convertTo cv img CV_8UC4 of
                None \<Rightarrow> (Inl Cv_Exception, this)
              | Some img \<Rightarrow>
                 (case cvtColor cv img CV_BGR2BGRA of
                    None \<Rightarrow> (Inl Cv_Exception, this)
                  | Some img \<Rightarrow>
                     (case mipmap_loop cv img 0 (cols img) (rows img) this of
                        (Inl e, this) \<Rightarrow> (Inl e, this)
                      | (Inr u, this) \<Rightarrow>
                          (Inr (), this\<lparr>widthLog := log_uchar cv (cols (mipmaps this ! 0)),
                                         heightLog := log_uchar cv (rows (mipmaps this ! 0))\<rparr>))))))"

section \<open>What is assumed of OpenCV, and an instance to run the builder on\<close>

text \<open>
  The documented behaviour of the three OpenCV operations, as far as the header of the
  result goes: \<open>convertTo\<close> gives the depth asked for; \<open>cvtColor\<close> with \<open>CV_BGR2BGRA\<close>
  gives four channels of the depth it was given; \<open>resize\<close> gives a matrix of the size
  asked for and of the type of its source, and refuses an empty target size. Nothing is
  assumed about when the operations succeed.
\<close>

definition opencv_contract :: "env \<Rightarrow> bool" where
  "opencv_contract cv \<longleftrightarrow>
     (\<forall>m t m'. convertTo cv m t = Some m' \<longrightarrow> depth m' = fst t) \<and>
     (\<forall>m m'. cvtColor cv m CV_BGR2BGRA = Some m' \<longrightarrow> channels m' = 4 \<and> depth m' = depth m) \<and>
     (\<forall>src dsize m'. resize cv src dsize = Some m' \<longrightarrow>
        0 <s fst dsize \<and> 0 <s snd dsize \<and> Mat_size m' = dsize \<and>
        channels m' = channels src \<and> depth m' = depth src)"


text \<open>
  A stand-in for OpenCV on headers: \<open>convertTo\<close> changes the depth only, \<open>cvtColor\<close>
  accepts three or four channels for \<open>CV_BGR2BGRA\<close>, \<open>resize\<close> needs a non-empty source
  and target. For \<open>log_uchar\<close> it takes the integer logarithm. \<open>ocv_resize_fails\<close> is
  the same library when every \<open>resize\<close> throws, as it does when memory runs out.
\<close>

definition ocv :: env where
  "ocv = \<lparr>convertTo = (\<lambda>m t. Some (m\<lparr>depth := fst t\<rparr>)),
          cvtColor = (\<lambda>m code.
             if code = CV_BGR2BGRA \<and> (channels m = 3 \<or> channels m = 4)
             then Some (m\<lparr>channels := 4\<rparr>) else None),
          resize = (\<lambda>src dsize.
             if 0 <s cols src \<and> 0 <s rows src \<and> 0 <s fst dsize \<and> 0 <s snd dsize
             then Some (src\<lparr>cols := fst dsize, rows := snd dsize\<rparr>) else None),
          log_uchar = (\<lambda>c. of_nat (floorlog 2 (unat c) - 1))\<rparr>"

definition ocv_resize_fails :: env where
  "ocv_resize_fails = ocv\<lparr>resize := (\<lambda>src dsize. None)\<rparr>"

text \<open>A newly constructed \<open>Texture\<close>: no levels yet.\<close>

definition new_Texture :: Texture where
  "new_Texture = \<lparr>mipmaps = [], widthLog = 0, heightLog = 0, mipmaps_num = 0\<rparr>"

text \<open>
  The five-level pyramid of a 16 by 16 image, used below as a worked example.
\<close>

definition pyramid_16 :: Texture where
  "pyramid_16 = \<lparr>mipmaps =
      [\<lparr>cols = 16, rows = 16, channels = 4, depth = CV_8U\<rparr>,
       \<lparr>cols = 8, rows = 8, channels = 4, depth = CV_8U\<rparr>,
       \<lparr>cols = 4, rows = 4, channels = 4, depth = CV_8U\<rparr>,
       \<lparr>cols = 2, rows = 2, channels = 4, depth = CV_8U\<rparr>,
       \<lparr>cols = 1, rows = 1, channels = 4, depth = CV_8U\<rparr>],
      widthLog = 4, heightLog = 4, mipmaps_num = 5\<rparr>"

section \<open>The window transforms\<close>

text \<open>
  Claim C5. For every point \<open>p\<close> and all positive screen sizes \<open>w\<close> and \<open>h\<close>, mapping
  \<open>p\<close> to screen space and back gives \<open>p\<close> again, exactly, in rational arithmetic:
  \<open>screen_to_clip_space\<close> is the algebraic inverse of \<open>clip_to_screen_space\<close>.
\<close>

theorem screen_to_clip_inverts_clip_to_screen:
  assumes "0 < w" and "0 < h"
  shows "screen_to_clip_space (clip_to_screen_space p w h) w h = p"
proof -
  have w: "(of_int w :: rat) \<noteq> 0" and h: "(of_int h :: rat) \<noteq> 0"
    using assms by simp_all
  obtain x y where p: "p = (x, y)" by (cases p)
  have "(x + 1) * (of_int w / 2) / (of_int w / 2) - 1 = x"
    using w by simp
  moreover have "((of_int h - (y + 1) * (of_int h / 2)) / (of_int h / 2) - 1) * (- 1) = y"
    using h by (simp add: field_simps)
  ultimately show ?thesis
    by (simp add: p clip_to_screen_space_def screen_to_clip_space_def Let_def)
qed

theorem screen_to_clip_inverts_clip_to_screen_witness:
  "(0::int) < 640 \<and> (0::int) < 480 \<and>
   clip_to_screen_space (1/2, - 1/4) 640 480 = (480, 300) \<and>
   screen_to_clip_space (clip_to_screen_space (1/2, - 1/4) 640 480) 640 480 = (1/2, - 1/4)"
  using screen_to_clip_inverts_clip_to_screen [of 640 480 "(1/2, - 1/4)"]
  by (simp add: clip_to_screen_space_def Let_def)

text \<open>
  In exact arithmetic \<open>clip_to_screen_space\<close> is the viewport formula
  \<open>x' = (x + 1) * w / 2\<close>, \<open>y' = h - (y + 1) * h / 2\<close>. This says nothing about the
  values the code returns in single precision, where the conversion of the screen size
  and every operation round.
\<close>

lemma clip_to_screen_space_exact:
  "clip_to_screen_space (x, y) w h
     = ((x + 1) * of_int w / 2, of_int h - (y + 1) * of_int h / 2)"
  by (simp add: clip_to_screen_space_def Let_def)

section \<open>The level count\<close>

text \<open>
  A size of 0 is shifted to 0 for ever; from any other size the loop reaches 1, and the
  count it returns is \<open>floorlog 2\<close> of the size, that is \<open>\<lfloor>log\<^sub>2 size\<rfloor> + 1\<close>.
\<close>

lemma shift_Some_nonzero:
  assumes "shift_until_one sz m = Some r"
  shows "sz \<noteq> 0"
proof (rule shift_until_one.raw_induct [where P = "\<lambda>sz m r. sz \<noteq> 0", OF _ assms])
  fix f :: "32 word \<Rightarrow> 32 word \<Rightarrow> 32 word option" and sz m r
  assume IH: "\<And>a b y. f a b = Some y \<Longrightarrow> a \<noteq> 0"
    and step: "(let sz = drop_bit 1 sz; mipmapsNum = m + 1
                in if sz \<noteq> 1 then f sz mipmapsNum else Some mipmapsNum) = Some r"
  show "sz \<noteq> 0"
  proof
    assume "sz = 0"
    with step have "f 0 (m + 1) = Some r" by (simp add: Let_def)
    from IH [OF this] show False by simp
  qed
qed

lemma shift_zero: "shift_until_one 0 n = None"
  using shift_Some_nonzero [of 0 n] by (cases "shift_until_one 0 n") auto

lemma unat_drop1: "unat (drop_bit 1 (x :: 32 word)) = unat x div 2"
  by (simp add: drop_bit_eq_div unat_div)

lemma shift_ge2:
  "2 \<le> unat sz \<Longrightarrow> shift_until_one sz n = Some (n + of_nat (floorlog 2 (unat sz) - 1))"
proof (induction "unat sz" arbitrary: sz n rule: less_induct)
  case less
  let ?s = "drop_bit 1 sz"
  have u: "unat ?s = unat sz div 2" by (rule unat_drop1)
  have fl: "floorlog 2 (unat sz) = floorlog 2 (unat ?s) + 1"
    using less.prems by (subst compute_floorlog) (simp only: u, simp)
  show ?case
  proof (cases "?s = 1")
    case True
    then have "floorlog 2 (unat ?s) = 1" by (simp add: compute_floorlog)
    with True fl show ?thesis
      by (subst shift_until_one.simps) (simp add: Let_def)
  next
    case False
    have "unat ?s \<noteq> 1" using False by (simp add: word_unat_eq_iff)
    with u less.prems have ge: "2 \<le> unat ?s" by linarith
    have lt: "unat ?s < unat sz" using u less.prems by linarith
    have pos: "1 \<le> floorlog 2 (unat ?s)" using ge by (subst compute_floorlog) simp
    have "shift_until_one sz n = shift_until_one ?s (n + 1)"
      using False by (subst shift_until_one.simps) (simp add: Let_def)
    also have "\<dots> = Some (n + 1 + of_nat (floorlog 2 (unat ?s) - 1))"
      by (rule less.hyps [OF lt ge])
    also have "n + 1 + of_nat (floorlog 2 (unat ?s) - 1) = n + of_nat (floorlog 2 (unat sz) - 1)"
      using pos by (simp add: fl of_nat_diff)
    finally show ?thesis .
  qed
qed

lemma gmax_value:
  assumes "max w h \<noteq> 0"
  shows "get_max_possible_mipmaps_num w h = Some (of_nat (floorlog 2 (unat (max w h))))"
proof (cases "max w h = 1")
  case True
  then show ?thesis
    by (simp add: get_max_possible_mipmaps_num_def compute_floorlog)
next
  case False
  with assms have "unat (max w h) \<noteq> 0" "unat (max w h) \<noteq> 1"
    by (simp_all add: word_unat_eq_iff)
  then have ge: "2 \<le> unat (max w h)" by linarith
  then have "1 \<le> floorlog 2 (unat (max w h))" by (subst compute_floorlog) simp
  then show ?thesis
    using False shift_ge2 [OF ge, of 1]
    by (simp add: get_max_possible_mipmaps_num_def Let_def of_nat_diff)
qed

lemma gmax_terminates_iff:
  "(\<exists>n. get_max_possible_mipmaps_num w h = Some n) \<longleftrightarrow> 1 \<le> max w h"
proof
  assume "\<exists>n. get_max_possible_mipmaps_num w h = Some n"
  then show "1 \<le> max w h"
    by (auto simp: get_max_possible_mipmaps_num_def Let_def word_le_nat_alt
        split: if_splits dest!: shift_Some_nonzero) (simp_all add: unat_gt_0 Suc_le_eq)
next
  assume "1 \<le> max w h"
  then have "max w h \<noteq> 0" by auto
  from gmax_value [OF this] show "\<exists>n. get_max_possible_mipmaps_num w h = Some n" by blast
qed

lemma sint_nonneg_unat:
  fixes w :: "32 word"
  assumes "0 \<le> sint w"
  shows "sint w = int (unat w)"
proof -
  have "sint w = signed_take_bit (LENGTH(32) - Suc 0) (uint w)" by (rule sint_uint)
  moreover have "LENGTH(32) - Suc 0 = 31" by simp
  ultimately have s: "sint w = signed_take_bit 31 (uint w)" by (simp only:)
  have p: "(2::int) ^ Suc 31 = 2 ^ 32" by simp
  have upper: "uint w < 2 ^ 31"
  proof (rule ccontr)
    assume "\<not> uint w < 2 ^ 31"
    then have "2 ^ 31 \<le> uint w" by (simp only: not_less)
    then have "signed_take_bit 31 (uint w) \<le> uint w - 2 ^ Suc 31"
      by (rule signed_take_bit_int_less_eq)
    then have "sint w \<le> uint w - 2 ^ 32" by (simp only: s p)
    moreover have "uint w < 2 ^ LENGTH(32)" by (rule uint_bounded)
    then have "uint w < 2 ^ 32" by simp
    ultimately show False using assms by linarith
  qed
  have lower: "- (2 ^ 31) \<le> uint w"
  proof -
    have "- (2 ^ 31) \<le> (0::int)" by simp
    also have "0 \<le> uint w" by (rule uint_ge_0)
    finally show ?thesis .
  qed
  have "signed_take_bit 31 (uint w) = uint w"
    using lower upper by (rule signed_take_bit_int_eq_self)
  then have "sint w = uint w" by (simp only: s)
  then show ?thesis by (simp only: uint_nat)
qed

lemma floorlog_word_bound: "floorlog 2 (unat (w :: 32 word)) \<le> 32"
proof -
  have "unat w < 2 ^ LENGTH(32)" by (rule unsigned_less)
  then show ?thesis by (intro floorlog_leI) simp_all
qed

lemma gmax_result:
  assumes "get_max_possible_mipmaps_num w h = Some n"
  shows "max w h \<noteq> 0" and "unat n = floorlog 2 (unat (max w h))" and "n \<noteq> 0"
proof -
  from assms have "1 \<le> max w h" using gmax_terminates_iff [of w h] by blast
  then show nz: "max w h \<noteq> 0" by auto
  from gmax_value [OF nz] assms have n: "n = of_nat (floorlog 2 (unat (max w h)))" by simp
  have "floorlog 2 (unat (max w h)) < 2 ^ LENGTH(32)"
    using floorlog_word_bound [of "max w h"] by simp
  then show u: "unat n = floorlog 2 (unat (max w h))"
    unfolding n by (simp only: unat_of_nat mod_less)
  have "0 < unat (max w h)" using nz by (simp add: unat_gt_0)
  then have "0 < floorlog 2 (unat (max w h))" by (simp add: floorlog_def)
  with u show "n \<noteq> 0" by (metis less_numeral_extra(3) unat_0 unsigned_0)
qed


text \<open>
  Claim C10. \<open>get_max_possible_mipmaps_num\<close> returns exactly when
  \<open>max(width, height) \<ge> 1\<close>, that is unless both arguments are 0: the loop shifts
  the larger argument right until it is 1, which it never is when it starts at 0. So the
  call with \<open>width = height = 0\<close> does not return.
\<close>

theorem get_max_possible_mipmaps_num_terminates_iff:
  "((\<exists>n. get_max_possible_mipmaps_num width height = Some n) \<longleftrightarrow> 1 \<le> max width height) \<and>
   (1 \<le> max width height \<longleftrightarrow> \<not> (width = 0 \<and> height = 0)) \<and>
   get_max_possible_mipmaps_num 0 0 = None"
proof -
  have "get_max_possible_mipmaps_num 0 0 = None"
    using gmax_terminates_iff [of 0 0] by (cases "get_max_possible_mipmaps_num 0 0") auto
  moreover have "1 \<le> max width height \<longleftrightarrow> \<not> (width = 0 \<and> height = 0)"
    by (auto simp: max_def word_le_nat_alt word_unat_eq_iff)
  ultimately show ?thesis using gmax_terminates_iff [of width height] by simp
qed

section \<open>The power-of-two test\<close>

text \<open>
  \<open>x & (x - 1)\<close> clears the lowest set bit of \<open>x\<close>. It is 0 exactly for the words
  with at most one bit set: the powers of two and 0.
\<close>

lemma and_pred_even: "0 < m \<Longrightarrow> (2 * m) AND (2 * m - 1) = 2 * (m AND (m - 1))" for m :: nat
proof -
  assume "0 < m"
  then have "(2 * m - 1) div 2 = m - 1" by linarith
  then show ?thesis by (subst and_rec) simp
qed

lemma and_pred_odd: "(2 * m + 1) AND (2 * m + 1 - 1) = 2 * m" for m :: nat
  by (subst and_rec) simp

lemma pow2_nat: "0 < n \<Longrightarrow> n AND (n - 1) = 0 \<longleftrightarrow> (\<exists>k. n = 2 ^ k)" for n :: nat
proof (induction n rule: less_induct)
  case (less n)
  show ?case
  proof (cases "even n")
    case True
    then obtain m where n: "n = 2 * m" by (elim evenE)
    with less.prems have m: "0 < m" "m < n" by simp_all
    have "n AND (n - 1) = 0 \<longleftrightarrow> m AND (m - 1) = 0"
      using and_pred_even [OF m(1)] by (simp add: n)
    also have "\<dots> \<longleftrightarrow> (\<exists>k. m = 2 ^ k)" by (rule less.IH [OF m(2) m(1)])
    also have "\<dots> \<longleftrightarrow> (\<exists>k. n = 2 ^ k)"
    proof
      assume "\<exists>k. m = 2 ^ k"
      then obtain k where "m = 2 ^ k" ..
      then have "n = 2 ^ Suc k" by (simp add: n)
      then show "\<exists>k. n = 2 ^ k" ..
    next
      assume "\<exists>k. n = 2 ^ k"
      then obtain k where k: "n = 2 ^ k" ..
      with True have "k \<noteq> 0" by (cases k) auto
      then obtain j where "k = Suc j" by (cases k) auto
      with k n have "m = 2 ^ j" by simp
      then show "\<exists>k. m = 2 ^ k" ..
    qed
    finally show ?thesis .
  next
    case False
    then obtain m where n: "n = 2 * m + 1" by (elim oddE)
    have "n AND (n - 1) = 2 * m" unfolding n by (rule and_pred_odd)
    then have "n AND (n - 1) = 0 \<longleftrightarrow> n = 1" by (simp add: n)
    also have "\<dots> \<longleftrightarrow> (\<exists>k. n = 2 ^ k)"
    proof
      assume "n = 1"
      then have "n = 2 ^ 0" by simp
      then show "\<exists>k. n = 2 ^ k" ..
    next
      assume "\<exists>k. n = 2 ^ k"
      then obtain k where k: "n = 2 ^ k" ..
      with False have "k = 0" by (cases k) auto
      with k show "n = 1" by simp
    qed
    finally show ?thesis .
  qed
qed

lemma unat_and_pred:
  "x \<noteq> 0 \<Longrightarrow> unat (x AND (x - 1)) = unat x AND (unat x - 1)" for x :: "32 word"
  by (simp add: unsigned_and_eq unat_minus_one)

lemma unat_two_power: "k < 32 \<Longrightarrow> unat (2 ^ k :: 32 word) = 2 ^ k"
proof -
  assume "k < 32"
  then have "(2::nat) ^ k < 2 ^ LENGTH(32)" by (intro power_strict_increasing) simp_all
  then have "unat (of_nat (2 ^ k) :: 32 word) = 2 ^ k" by (simp only: unat_of_nat mod_less)
  then show ?thesis by simp
qed

lemma is_power_of_two_iff: "is_power_of_two x \<longleftrightarrow> x = 0 \<or> (\<exists>k<32. x = 2 ^ k)"
proof (cases "x = 0")
  case True
  then show ?thesis by (simp add: is_power_of_two_def)
next
  case False
  then have pos: "0 < unat x" by (simp add: unat_gt_0)
  have "is_power_of_two x \<longleftrightarrow> unat (x AND (x - 1)) = 0"
    by (simp add: is_power_of_two_def unsigned_eq_0_iff)
  also have "\<dots> \<longleftrightarrow> unat x AND (unat x - 1) = 0"
    by (simp add: unat_and_pred [OF False])
  also have "\<dots> \<longleftrightarrow> (\<exists>k. unat x = 2 ^ k)" by (rule pow2_nat [OF pos])
  also have "\<dots> \<longleftrightarrow> (\<exists>k<32. x = 2 ^ k)"
  proof
    assume "\<exists>k. unat x = 2 ^ k"
    then obtain k where k: "unat x = 2 ^ k" ..
    have "unat x < 2 ^ 32" using unsigned_less [of x] by simp
    with k have "k < 32" using power_less_imp_less_exp [of "2::nat" k 32] by simp
    moreover have "x = 2 ^ k"
    proof -
      have "x = of_nat (unat x)" by simp
      also have "\<dots> = 2 ^ k" by (simp only: k) simp
      finally show ?thesis .
    qed
    ultimately show "\<exists>k<32. x = 2 ^ k" by blast
  next
    assume "\<exists>k<32. x = 2 ^ k"
    then obtain k where "k < 32" "x = 2 ^ k" by blast
    then have "unat x = 2 ^ k" by (simp add: unat_two_power)
    then show "\<exists>k. unat x = 2 ^ k" ..
  qed
  finally show ?thesis using False by simp
qed

section \<open>The loop over the levels\<close>

text \<open>
  An induction rule that follows the loop: it stops, or \<open>resize\<close> throws, or a level
  is appended and the loop goes on.
\<close>

lemma unat_succ_less:
  fixes i n :: "32 word"
  assumes "i < n"
  shows "unat (i + 1) = Suc (unat i)" and "i + 1 \<noteq> 0" and "unat i < unat n" and "i + 1 \<le> n"
proof -
  from assms show less: "unat i < unat n" by (simp add: word_less_nat_alt)
  moreover have "unat n < 2 ^ LENGTH(32)" by (rule unsigned_less)
  ultimately have "unat i + unat (1 :: 32 word) < 2 ^ LENGTH(32)" by simp
  then have "unat (i + 1) = unat i + unat (1 :: 32 word)" by (simp only: unat_add_lem)
  then show suc: "unat (i + 1) = Suc (unat i)" by simp
  then show "i + 1 \<noteq> 0" by (metis Zero_not_Suc unat_0 unsigned_0)
  from suc less show "i + 1 \<le> n" by (simp add: word_le_nat_alt)
qed

lemma mipmap_loop_cases [consumes 1, case_names finished raised pushed]:
  assumes run: "mipmap_loop cv img i cw ch this = (res, this')"
    and finished: "\<And>i cw ch this. \<not> i < mipmaps_num this \<Longrightarrow> P i cw ch this (Inr ()) this"
    and raised: "\<And>i cw ch this.
           i < mipmaps_num this \<Longrightarrow> i \<noteq> 0 \<Longrightarrow>
           resize cv (mipmaps this ! unat (i - 1)) (cw, ch) = None \<Longrightarrow>
           P i cw ch this (Inl Cv_Exception) this"
    and pushed: "\<And>i cw ch this m res this'.
           i < mipmaps_num this \<Longrightarrow>
           (if i = 0 then Some img else resize cv (mipmaps this ! unat (i - 1)) (cw, ch)) = Some m \<Longrightarrow>
           mipmap_loop cv img (i + 1)
             (if 1 <s cw then signed_drop_bit 1 cw else cw)
             (if 1 <s ch then signed_drop_bit 1 ch else ch)
             (this\<lparr>mipmaps := mipmaps this @ [m]\<rparr>) = (res, this') \<Longrightarrow>
           P (i + 1)
             (if 1 <s cw then signed_drop_bit 1 cw else cw)
             (if 1 <s ch then signed_drop_bit 1 ch else ch)
             (this\<lparr>mipmaps := mipmaps this @ [m]\<rparr>) res this' \<Longrightarrow>
           P i cw ch this res this'"
  shows "P i cw ch this res this'"
  using run finished raised pushed
proof (induction cv img i cw ch this rule: mipmap_loop.induct)
  case (1 cv img i cw ch this)
  note run = "1.prems"(1) and finished = "1.prems"(2) and raised = "1.prems"(3)
    and pushed = "1.prems"(4)
  have sz: "Mat_size (Mat_new ch cw CV_8UC4) = (cw, ch)"
    by (simp add: Mat_size_def Mat_new_def)
  show ?case
  proof (cases "i < mipmaps_num this")
    case False
    with run have "res = Inr ()" "this' = this" by (simp_all add: mipmap_loop.simps)
    with False finished show ?thesis by simp
  next
    case True
    let ?lvl = "if i = 0 then Some img
                else let currMipMap = Mat_new ch cw CV_8UC4
                     in resize cv (mipmaps this ! unat (i - 1)) (Mat_size currMipMap)"
    show ?thesis
    proof (cases ?lvl)
      case None
      with True run have "res = Inl Cv_Exception" "this' = this"
        by (simp_all add: mipmap_loop.simps [of cv img i])
      moreover from None have "i \<noteq> 0" "resize cv (mipmaps this ! unat (i - 1)) (cw, ch) = None"
        by (simp_all add: sz Let_def split: if_splits)
      ultimately show ?thesis using True raised by simp
    next
      case (Some m)
      with True run have next_run: "mipmap_loop cv img (i + 1)
               (if 1 <s cw then signed_drop_bit 1 cw else cw)
               (if 1 <s ch then signed_drop_bit 1 ch else ch)
               (this\<lparr>mipmaps := mipmaps this @ [m]\<rparr>) = (res, this')"
        by (simp add: mipmap_loop.simps [of cv img i])
      from Some have lvl: "(if i = 0 then Some img
           else resize cv (mipmaps this ! unat (i - 1)) (cw, ch)) = Some m"
        by (simp add: sz Let_def split: if_splits)
      have "P (i + 1)
             (if 1 <s cw then signed_drop_bit 1 cw else cw)
             (if 1 <s ch then signed_drop_bit 1 ch else ch)
             (this\<lparr>mipmaps := mipmaps this @ [m]\<rparr>) res this'"
        by (rule "1.IH" [OF True Some next_run finished raised pushed])
      with True lvl next_run show ?thesis by (rule pushed)
    qed
  qed
qed

lemma loop_frame:
  assumes "mipmap_loop cv img i cw ch this = (res, this')"
  shows "widthLog this' = widthLog this \<and> heightLog this' = heightLog this \<and>
     mipmaps_num this' = mipmaps_num this \<and> (\<exists>ls. mipmaps this' = mipmaps this @ ls)"
  using assms by (induction rule: mipmap_loop_cases) auto

lemma loop_count:
  assumes "mipmap_loop cv img i cw ch this = (res, this')"
  shows "res = Inr () \<longrightarrow>
     length (mipmaps this') = length (mipmaps this) + (unat (mipmaps_num this) - unat i)"
  using assms
proof (induction rule: mipmap_loop_cases)
  case (finished i cw ch this)
  then show ?case by (simp add: word_less_nat_alt)
next
  case (raised i cw ch this)
  then show ?case by simp
next
  case (pushed i cw ch this m res this')
  from unat_succ_less [OF pushed(1)] pushed(4) show ?case by auto
qed

lemma halve_positive:
  fixes c :: "32 word"
  assumes "0 <s (if 1 <s c then signed_drop_bit 1 c else c)"
  shows "sint (if 1 <s c then signed_drop_bit 1 c else c) = max 1 (sint c div 2)"
proof (cases "1 <s c")
  case True
  then have "1 < sint c" by (simp add: word_sless_alt)
  moreover have "sint (signed_drop_bit 1 c) = sint c div 2"
    by (simp add: sint_signed_drop_bit_eq drop_bit_eq_div)
  ultimately show ?thesis using True by simp
next
  case False
  with assms have "sint c \<le> 1" "0 < sint c" by (simp_all add: word_sless_alt)
  then have "sint c = 1" by simp
  with False show ?thesis by simp
qed



lemma loop_chain:
  assumes run: "mipmap_loop cv img i cw ch this = (res, this')"
    and dims: "\<And>src dsize m'. resize cv src dsize = Some m' \<Longrightarrow>
                 0 <s fst dsize \<and> 0 <s snd dsize \<and> Mat_size m' = dsize"
  shows "length (mipmaps this) = unat i \<longrightarrow>
         (i = 0 \<longrightarrow> cw = cols img \<and> ch = rows img) \<longrightarrow>
         (i \<noteq> 0 \<longrightarrow>
            cw = (if 1 <s cols (last (mipmaps this))
                  then signed_drop_bit 1 (cols (last (mipmaps this)))
                  else cols (last (mipmaps this))) \<and>
            ch = (if 1 <s rows (last (mipmaps this))
                  then signed_drop_bit 1 (rows (last (mipmaps this)))
                  else rows (last (mipmaps this)))) \<longrightarrow>
         (\<forall>j. Suc j < length (mipmaps this) \<longrightarrow>
            sint (cols (mipmaps this ! Suc j)) = max 1 (sint (cols (mipmaps this ! j)) div 2) \<and>
            sint (rows (mipmaps this ! Suc j)) = max 1 (sint (rows (mipmaps this ! j)) div 2)) \<longrightarrow>
         (\<forall>j. Suc j < length (mipmaps this') \<longrightarrow>
            sint (cols (mipmaps this' ! Suc j)) = max 1 (sint (cols (mipmaps this' ! j)) div 2) \<and>
            sint (rows (mipmaps this' ! Suc j)) = max 1 (sint (rows (mipmaps this' ! j)) div 2))"
  using run
proof (induction rule: mipmap_loop_cases)
  case (finished i cw ch this)
  show ?case by simp
next
  case (raised i cw ch this)
  show ?case by simp
next
  case (pushed i cw ch this m res this')
  let ?ms = "mipmaps this"
  let ?halve = "\<lambda>c :: 32 word. if 1 <s c then signed_drop_bit 1 c else c"
  let ?rel = "\<lambda>a b. sint (cols b) = max 1 (sint (cols a) div 2) \<and>
                     sint (rows b) = max 1 (sint (rows a) div 2)"
  show ?case
  proof (intro impI)
    assume len: "length ?ms = unat i"
      and init: "i = 0 \<longrightarrow> cw = cols img \<and> ch = rows img"
      and curr: "i \<noteq> 0 \<longrightarrow> cw = ?halve (cols (last ?ms)) \<and> ch = ?halve (rows (last ?ms))"
      and chain: "\<forall>j. Suc j < length ?ms \<longrightarrow> ?rel (?ms ! j) (?ms ! Suc j)"
    have m_dims: "cols m = cw \<and> rows m = ch"
    proof (cases "i = 0")
      case True
      with pushed(2) init show ?thesis by simp
    next
      case False
      with pushed(2) have "resize cv (?ms ! unat (i - 1)) (cw, ch) = Some m" by simp
      from dims [OF this] show ?thesis by (simp add: Mat_size_def)
    qed
    have link: "?rel (last ?ms) m" if "i \<noteq> 0"
    proof -
      from that pushed(2) have "resize cv (?ms ! unat (i - 1)) (cw, ch) = Some m" by simp
      from dims [OF this] have pos: "0 <s cw" "0 <s ch" by simp_all
      from that curr have cw: "cw = ?halve (cols (last ?ms))" and ch: "ch = ?halve (rows (last ?ms))"
        by simp_all
      from pos(1) have "sint cw = max 1 (sint (cols (last ?ms)) div 2)"
        unfolding cw by (rule halve_positive)
      moreover from pos(2) have "sint ch = max 1 (sint (rows (last ?ms)) div 2)"
        unfolding ch by (rule halve_positive)
      ultimately show ?thesis using m_dims by simp
    qed
    let ?nxt = "this\<lparr>mipmaps := ?ms @ [m]\<rparr>"
    have 1: "length (mipmaps ?nxt) = unat (i + 1)"
      using len unat_succ_less(1) [OF pushed(1)] by simp
    have 2: "i + 1 = 0 \<longrightarrow> ?halve cw = cols img \<and> ?halve ch = rows img"
      using unat_succ_less(2) [OF pushed(1)] by simp
    have 3: "i + 1 \<noteq> 0 \<longrightarrow>
         ?halve cw = ?halve (cols (last (mipmaps ?nxt))) \<and>
         ?halve ch = ?halve (rows (last (mipmaps ?nxt)))"
      using m_dims by simp
    have 4: "\<forall>j. Suc j < length (mipmaps ?nxt) \<longrightarrow>
                ?rel (mipmaps ?nxt ! j) (mipmaps ?nxt ! Suc j)"
    proof (intro allI impI)
      fix j assume j: "Suc j < length (mipmaps ?nxt)"
      show "?rel (mipmaps ?nxt ! j) (mipmaps ?nxt ! Suc j)"
      proof (cases "Suc j < length ?ms")
        case True
        with chain show ?thesis by (simp add: nth_append)
      next
        case False
        with j have eq: "Suc j = length ?ms" by simp
        then have ne: "?ms \<noteq> []" and "i \<noteq> 0" using len by auto
        from link [OF this(2)] have "?rel (last ?ms) m" .
        moreover have "last ?ms = ?ms ! j" using eq [symmetric] ne by (simp add: last_conv_nth)
        ultimately show ?thesis using eq by (simp add: nth_append)
      qed
    qed
    from pushed(4) 1 2 3 4
    show "\<forall>j. Suc j < length (mipmaps this') \<longrightarrow> ?rel (mipmaps this' ! j) (mipmaps this' ! Suc j)"
      by blast
  qed
qed

lemma loop_raises_cv_only:
  assumes "mipmap_loop cv img i cw ch this = (res, this')"
  shows "res = Inr () \<or> res = Inl Cv_Exception"
  using assms by (induction rule: mipmap_loop_cases) auto


section \<open>The outcomes of \<open>create_mipmapped_texture\<close>\<close>

lemma create_mipmapped_texture_cases [consumes 1,
    case_names invalid convert_failed color_failed loop_failed built]:
  assumes run: "create_mipmapped_texture cv this img mipmapsNum = Some (res, this')"
  obtains
    (invalid) n where
      "(if mipmapsNum = 0 then get_max_possible_mipmaps_num (cols img) (rows img)
        else Some mipmapsNum) = Some n"
      "1 < n" "\<not> is_power_of_two (cols img) \<or> \<not> is_power_of_two (rows img)"
      "res = Inl InvalidDimensions" "this' = this\<lparr>mipmaps_num := n\<rparr>"
  | (convert_failed) n where
      "(if mipmapsNum = 0 then get_max_possible_mipmaps_num (cols img) (rows img)
        else Some mipmapsNum) = Some n"
      "\<not> (1 < n \<and> (\<not> is_power_of_two (cols img) \<or> \<not> is_power_of_two (rows img)))"
      "convertTo cv img CV_8UC4 = None"
      "res = Inl Cv_Exception" "this' = this\<lparr>mipmaps_num := n\<rparr>"
  | (color_failed) n m1 where
      "(if mipmapsNum = 0 then get_max_possible_mipmaps_num (cols img) (rows img)
        else Some mipmapsNum) = Some n"
      "\<not> (1 < n \<and> (\<not> is_power_of_two (cols img) \<or> \<not> is_power_of_two (rows img)))"
      "convertTo cv img CV_8UC4 = Some m1" "cvtColor cv m1 CV_BGR2BGRA = None"
      "res = Inl Cv_Exception" "this' = this\<lparr>mipmaps_num := n\<rparr>"
  | (loop_failed) n m1 m0 e where
      "(if mipmapsNum = 0 then get_max_possible_mipmaps_num (cols img) (rows img)
        else Some mipmapsNum) = Some n"
      "\<not> (1 < n \<and> (\<not> is_power_of_two (cols img) \<or> \<not> is_power_of_two (rows img)))"
      "convertTo cv img CV_8UC4 = Some m1" "cvtColor cv m1 CV_BGR2BGRA = Some m0"
      "mipmap_loop cv m0 0 (cols m0) (rows m0) (this\<lparr>mipmaps_num := n\<rparr>) = (Inl e, this')"
      "res = Inl e"
  | (built) n m1 m0 t where
      "(if mipmapsNum = 0 then get_max_possible_mipmaps_num (cols img) (rows img)
        else Some mipmapsNum) = Some n"
      "\<not> (1 < n \<and> (\<not> is_power_of_two (cols img) \<or> \<not> is_power_of_two (rows img)))"
      "convertTo cv img CV_8UC4 = Some m1" "cvtColor cv m1 CV_BGR2BGRA = Some m0"
      "mipmap_loop cv m0 0 (cols m0) (rows m0) (this\<lparr>mipmaps_num := n\<rparr>) = (Inr (), t)"
      "res = Inr ()"
      "this' = t\<lparr>widthLog := log_uchar cv (cols (mipmaps t ! 0)),
                  heightLog := log_uchar cv (rows (mipmaps t ! 0))\<rparr>"
proof -
  let ?n = "if mipmapsNum = 0 then get_max_possible_mipmaps_num (cols img) (rows img)
            else Some mipmapsNum"
  from run obtain n where n: "?n = Some n"
    by (cases ?n) (simp_all add: create_mipmapped_texture_def)
  let ?bad = "1 < n \<and> (\<not> is_power_of_two (cols img) \<or> \<not> is_power_of_two (rows img))"
  show thesis
  proof (cases ?bad)
    case True
    with run n have "res = Inl InvalidDimensions" "this' = this\<lparr>mipmaps_num := n\<rparr>"
      by (auto simp: create_mipmapped_texture_def Let_def)
    with n True show thesis by (intro invalid [of n]) simp_all
  next
    case ok: False
    show thesis
    proof (cases "convertTo cv img CV_8UC4")
      case None
      with run n ok have "res = Inl Cv_Exception" "this' = this\<lparr>mipmaps_num := n\<rparr>"
        by (auto simp: create_mipmapped_texture_def Let_def)
      with n ok None show thesis by (intro convert_failed [of n]) simp_all
    next
      case m1: (Some m1)
      show thesis
      proof (cases "cvtColor cv m1 CV_BGR2BGRA")
        case None
        with run n ok m1 have "res = Inl Cv_Exception" "this' = this\<lparr>mipmaps_num := n\<rparr>"
          by (auto simp: create_mipmapped_texture_def Let_def)
        with n ok m1 None show thesis by (intro color_failed [of n m1]) simp_all
      next
        case m0: (Some m0)
        obtain r t where loop:
          "mipmap_loop cv m0 0 (cols m0) (rows m0) (this\<lparr>mipmaps_num := n\<rparr>) = (r, t)"
          by (cases "mipmap_loop cv m0 0 (cols m0) (rows m0) (this\<lparr>mipmaps_num := n\<rparr>)")
        show thesis
        proof (cases r)
          case (Inl e)
          with run n ok m1 m0 loop have "res = Inl e" "this' = t"
            by (auto simp: create_mipmapped_texture_def Let_def)
          with n ok m1 m0 loop Inl show thesis by (intro loop_failed [of n m1 m0 e]) simp_all
        next
          case (Inr u)
          with run n ok m1 m0 loop have "res = Inr ()"
            "this' = t\<lparr>widthLog := log_uchar cv (cols (mipmaps t ! 0)),
                        heightLog := log_uchar cv (rows (mipmaps t ! 0))\<rparr>"
            by (auto simp: create_mipmapped_texture_def Let_def)
          with n ok m1 m0 loop Inr show thesis by (intro built [of n m1 m0 t]) simp_all
        qed
      qed
    qed
  qed
qed

lemma ocv_contract: "opencv_contract ocv"
  by (auto simp: opencv_contract_def ocv_def Mat_size_def split: if_splits)

lemma runtime_error_only_if:
  assumes "create_mipmapped_texture cv this img mipmapsNum = Some (Inl (Runtime_error s), this')"
  shows "\<not> is_power_of_two (cols img) \<or> \<not> is_power_of_two (rows img)"
  using assms
proof (cases rule: create_mipmapped_texture_cases)
  case (loop_failed n m1 m0 e)
  with loop_raises_cv_only [OF loop_failed(5)] show ?thesis by simp
qed simp_all

lemma create_level_count:
  assumes run: "create_mipmapped_texture cv this img mipmapsNum = Some (res, this')"
    and n: "(if mipmapsNum = 0 then get_max_possible_mipmaps_num (cols img) (rows img)
             else Some mipmapsNum) = Some n"
  shows "mipmaps_num this' = n \<and>
         (res = Inr () \<longrightarrow> length (mipmaps this') = length (mipmaps this) + unat n)"
  using run
proof (cases rule: create_mipmapped_texture_cases)
  case (loop_failed n' m1 m0 e)
  with n loop_frame [OF loop_failed(5)] show ?thesis by simp
next
  case (built n' m1 m0 t)
  with n loop_frame [OF built(5)] loop_count [OF built(5)] show ?thesis by simp
qed (use n in simp_all)

lemma create_returns:
  assumes "(if mipmapsNum = 0 then get_max_possible_mipmaps_num (cols img) (rows img)
            else Some mipmapsNum) = Some n"
  shows "\<exists>res this'. create_mipmapped_texture cv this img mipmapsNum = Some (res, this')"
proof -
  from assms obtain p where "create_mipmapped_texture cv this img mipmapsNum = Some p"
    by (simp add: create_mipmapped_texture_def)
  then show ?thesis by (cases p) auto
qed

lemma positive_dims_max:
  fixes c r :: "32 word"
  assumes "1 \<le>s c" and "1 \<le>s r"
  shows "int (unat (max c r)) = max (sint c) (sint r)" and "max c r \<noteq> 0"
proof -
  from assms have "1 \<le> sint c" "1 \<le> sint r" by (simp_all add: word_sle_eq)
  then have c: "sint c = int (unat c)" and r: "sint r = int (unat r)"
    by (simp_all add: sint_nonneg_unat)
  have "unat (max c r) = max (unat c) (unat r)"
    by (simp add: max_def word_le_nat_alt)
  moreover have "int (max (unat c) (unat r)) = max (int (unat c)) (int (unat r))"
    by (simp only: of_nat_max)
  ultimately show "int (unat (max c r)) = max (sint c) (sint r)" by (simp only: c r)
  with \<open>1 \<le> sint c\<close> have "0 < unat (max c r)" by linarith
  then show "max c r \<noteq> 0" by (simp add: unat_gt_0)
qed

lemma build_16: "create_mipmapped_texture ocv new_Texture (Mat_new 16 16 CV_8UC3) 5
                   = Some (Inr (), pyramid_16)"
  by code_simp



section \<open>The pyramid\<close>

text \<open>
  In what follows a build is a call of \<open>create_mipmapped_texture\<close> on a newly
  constructed texture, one whose level vector is empty, and the image library is any
  \<open>cv\<close> that keeps to \<open>opencv_contract\<close>.
\<close>




text \<open>
  Claim C4. In every pyramid that \<open>create_mipmapped_texture\<close> has built, each level
  \<open>j + 1\<close> has width \<open>max(1, \<lfloor>width\<^sub>j / 2\<rfloor>)\<close> and height
  \<open>max(1, \<lfloor>height\<^sub>j / 2\<rfloor>)\<close>.
\<close>

theorem level_dimensions_halve:
  assumes contract: "opencv_contract cv"
    and fresh: "mipmaps this = []"
    and run: "create_mipmapped_texture cv this img mipmapsNum = Some (Inr (), this')"
    and j: "Suc j < length (mipmaps this')"
  shows "sint (cols (mipmaps this' ! Suc j)) = max 1 (sint (cols (mipmaps this' ! j)) div 2) \<and>
         sint (rows (mipmaps this' ! Suc j)) = max 1 (sint (rows (mipmaps this' ! j)) div 2)"
  using run
proof (cases rule: create_mipmapped_texture_cases)
  case (built n m1 m0 t)
  have dims: "\<And>src dsize m'. resize cv src dsize = Some m' \<Longrightarrow>
                 0 <s fst dsize \<and> 0 <s snd dsize \<and> Mat_size m' = dsize"
    using contract by (auto simp: opencv_contract_def)
  from loop_chain [OF built(5) dims] fresh
  have "\<forall>j. Suc j < length (mipmaps t) \<longrightarrow>
            sint (cols (mipmaps t ! Suc j)) = max 1 (sint (cols (mipmaps t ! j)) div 2) \<and>
            sint (rows (mipmaps t ! Suc j)) = max 1 (sint (rows (mipmaps t ! j)) div 2)"
    by simp
  with j built(7) show ?thesis by simp
qed simp_all

text \<open>
  The five levels built from the 16 by 16 image are 16, 8, 4, 2 and 1 wide and high.
\<close>

theorem level_dimensions_halve_witness:
  "opencv_contract ocv \<and> mipmaps new_Texture = [] \<and>
   create_mipmapped_texture ocv new_Texture (Mat_new 16 16 CV_8UC3) 5 = Some (Inr (), pyramid_16) \<and>
   Suc 3 < length (mipmaps pyramid_16) \<and>
   map (\<lambda>m. sint (cols m)) (mipmaps pyramid_16) = [16, 8, 4, 2, 1] \<and>
   map (\<lambda>m. sint (rows m)) (mipmaps pyramid_16) = [16, 8, 4, 2, 1] \<and>
   sint (cols (mipmaps pyramid_16 ! Suc 3)) = max 1 (sint (cols (mipmaps pyramid_16 ! 3)) div 2) \<and>
   sint (rows (mipmaps pyramid_16 ! Suc 3)) = max 1 (sint (rows (mipmaps pyramid_16 ! 3)) div 2)"
proof -
  have fresh: "mipmaps new_Texture = []" by (simp add: new_Texture_def)
  have j: "Suc 3 < length (mipmaps pyramid_16)" by (simp add: pyramid_16_def)
  have "map (\<lambda>m. sint (cols m)) (mipmaps pyramid_16) = [16, 8, 4, 2, 1]"
    and "map (\<lambda>m. sint (rows m)) (mipmaps pyramid_16) = [16, 8, 4, 2, 1]"
    by (simp_all add: pyramid_16_def)
  with level_dimensions_halve [OF ocv_contract fresh build_16 j] ocv_contract fresh build_16 j
  show ?thesis by (intro conjI) simp_all
qed

text \<open>
  Claim C2, as amended. For every image with width and height at least 1, a build with
  \<open>mipmapsNum = 0\<close> returns, and it has resolved the level count to
  \<open>\<lfloor>log\<^sub>2 (max(width, height))\<rfloor> + 1\<close>; when it returns normally the pyramid
  has exactly that many levels. It need not return normally: see the call on the 100 by
  50 image below.
\<close>

theorem auto_level_count:
  assumes w: "1 \<le>s cols img" and h: "1 \<le>s rows img" and fresh: "mipmaps this = []"
  shows "\<exists>res this'.
           create_mipmapped_texture cv this img 0 = Some (res, this') \<and>
           unat (mipmaps_num this')
             = nat \<lfloor>log 2 (real_of_int (max (sint (cols img)) (sint (rows img))))\<rfloor> + 1 \<and>
           (res = Inr () \<longrightarrow>
              length (mipmaps this')
                = nat \<lfloor>log 2 (real_of_int (max (sint (cols img)) (sint (rows img))))\<rfloor> + 1)"
proof -
  let ?mx = "max (cols img) (rows img)"
  from positive_dims_max [OF w h] have mx: "int (unat ?mx) = max (sint (cols img)) (sint (rows img))"
    and nz: "?mx \<noteq> 0" by simp_all
  from gmax_value [OF nz] obtain n where
    n: "get_max_possible_mipmaps_num (cols img) (rows img) = Some n" by simp
  from gmax_result(2) [OF n] have "unat n = floorlog 2 (unat ?mx)" .
  moreover have "0 < unat ?mx" using nz by (simp add: unat_gt_0)
  ultimately have "unat n = nat \<lfloor>log 2 (real (unat ?mx))\<rfloor> + 1"
    by (simp add: floorlog_def)
  moreover have "real (unat ?mx) = real_of_int (max (sint (cols img)) (sint (rows img)))"
    using mx by (metis of_int_of_nat_eq)
  ultimately have count: "unat n
      = nat \<lfloor>log 2 (real_of_int (max (sint (cols img)) (sint (rows img))))\<rfloor> + 1"
    by simp
  have resolve: "(if (0 :: 32 word) = 0 then get_max_possible_mipmaps_num (cols img) (rows img)
            else Some 0) = Some n" using n by simp
  from create_returns [OF resolve] obtain res this' where
    run: "create_mipmapped_texture cv this img 0 = Some (res, this')" by blast
  from create_level_count [OF run resolve] fresh count run show ?thesis by auto
qed

text \<open>
  A 128 by 128 image gives 8 levels and a 1 by 1 image gives 1.
\<close>

theorem auto_level_count_witness:
  "1 \<le>s cols (Mat_new 128 128 CV_8UC3) \<and> 1 \<le>s rows (Mat_new 128 128 CV_8UC3) \<and>
   mipmaps new_Texture = [] \<and>
   fst (the (create_mipmapped_texture ocv new_Texture (Mat_new 128 128 CV_8UC3) 0)) = Inr () \<and>
   length (mipmaps (snd (the (create_mipmapped_texture ocv new_Texture (Mat_new 128 128 CV_8UC3) 0))))
     = nat \<lfloor>log 2 (real_of_int (max (sint (cols (Mat_new 128 128 CV_8UC3)))
                                      (sint (rows (Mat_new 128 128 CV_8UC3)))))\<rfloor> + 1 \<and>
   length (mipmaps (snd (the (create_mipmapped_texture ocv new_Texture (Mat_new 128 128 CV_8UC3) 0)))) = 8 \<and>
   fst (the (create_mipmapped_texture ocv new_Texture (Mat_new 1 1 CV_8UC3) 0)) = Inr () \<and>
   length (mipmaps (snd (the (create_mipmapped_texture ocv new_Texture (Mat_new 1 1 CV_8UC3) 0)))) = 1"
proof -
  have w: "1 \<le>s cols (Mat_new 128 128 CV_8UC3)" and h: "1 \<le>s rows (Mat_new 128 128 CV_8UC3)"
    by code_simp+
  have fresh: "mipmaps new_Texture = []" by code_simp
  have ok: "fst (the (create_mipmapped_texture ocv new_Texture (Mat_new 128 128 CV_8UC3) 0)) = Inr ()"
    by code_simp
  have len: "length (mipmaps (snd (the
      (create_mipmapped_texture ocv new_Texture (Mat_new 128 128 CV_8UC3) 0)))) = 8"
    by code_simp
  have one: "fst (the (create_mipmapped_texture ocv new_Texture (Mat_new 1 1 CV_8UC3) 0)) = Inr ()"
    "length (mipmaps (snd (the (create_mipmapped_texture ocv new_Texture (Mat_new 1 1 CV_8UC3) 0)))) = 1"
    by code_simp+
  from auto_level_count [OF w h fresh, of ocv] ok
  have "length (mipmaps (snd (the
      (create_mipmapped_texture ocv new_Texture (Mat_new 128 128 CV_8UC3) 0))))
     = nat \<lfloor>log 2 (real_of_int (max (sint (cols (Mat_new 128 128 CV_8UC3)))
                                      (sint (rows (Mat_new 128 128 CV_8UC3)))))\<rfloor> + 1"
    by auto
  with w h fresh ok len one show ?thesis by (intro conjI)
qed

text \<open>
  Claim C2 as first stated says that every image at least 1 wide and high gets
  \<open>\<lfloor>log\<^sub>2 (max(width, height))\<rfloor> + 1\<close> levels. The 100 by 50 image gets none: the
  count resolves to 7, the dimensions are not powers of two, and the call throws.
\<close>

theorem auto_level_count_counterexample:
  "1 \<le>s cols (Mat_new 50 100 CV_8UC3) \<and> 1 \<le>s rows (Mat_new 50 100 CV_8UC3) \<and>
   create_mipmapped_texture ocv new_Texture (Mat_new 50 100 CV_8UC3) 0
     = Some (Inl InvalidDimensions, new_Texture\<lparr>mipmaps_num := 7\<rparr>) \<and>
   floorlog 2 (max 100 50) = 7 \<and>
   length (mipmaps (new_Texture\<lparr>mipmaps_num := 7\<rparr>)) = 0"
  by code_simp

section \<open>The check of the dimensions\<close>

text \<open>
  The exception of line 126 is thrown only when \<open>is_power_of_two\<close> fails on a
  dimension, and it is thrown whenever more than one level is asked for and a dimension
  is neither 0 nor a power of two. One level is built without the check.
\<close>

lemma non_power_of_two_rejected:
  assumes n: "(if mipmapsNum = 0 then get_max_possible_mipmaps_num (cols img) (rows img)
               else Some mipmapsNum) = Some n"
    and multi: "1 < n"
    and bad: "(cols img \<noteq> 0 \<and> (\<forall>k<32. cols img \<noteq> 2 ^ k)) \<or>
              (rows img \<noteq> 0 \<and> (\<forall>k<32. rows img \<noteq> 2 ^ k))"
  shows "create_mipmapped_texture cv this img mipmapsNum
           = Some (Inl InvalidDimensions, this\<lparr>mipmaps_num := n\<rparr>)"
proof -
  from bad have "\<not> is_power_of_two (cols img) \<or> \<not> is_power_of_two (rows img)"
    by (auto simp: is_power_of_two_iff)
  with n multi show ?thesis
    by (simp add: create_mipmapped_texture_def Let_def)
qed

lemma single_level_100x50:
  "create_mipmapped_texture ocv new_Texture (Mat_new 50 100 CV_8UC3) 1
     = Some (Inr (), \<lparr>mipmaps = [Mat_new 50 100 CV_8UC4], widthLog = 6, heightLog = 5,
                       mipmaps_num = 1\<rparr>)"
  by code_simp

text \<open>
  Claim C9. \<open>is_power_of_two 0\<close> holds: the test is \<open>x & (x - 1) == 0\<close>, true of 0
  as of every power of two, so the check in \<open>create_mipmapped_texture\<close> never rejects
  an image for a dimension of 0.
\<close>

theorem is_power_of_two_accepts_zero:
  "is_power_of_two 0 \<and>
   (is_power_of_two x \<longleftrightarrow> x AND (x - 1) = 0) \<and>
   is_power_of_two (2 ^ k) \<and>
   create_mipmapped_texture cv this (img\<lparr>cols := 0, rows := 0\<rparr>) mipmapsNum
     \<noteq> Some (Inl InvalidDimensions, this') \<and>
   create_mipmapped_texture cv this (img\<lparr>cols := 0, rows := 2 ^ k\<rparr>) mipmapsNum
     \<noteq> Some (Inl InvalidDimensions, this') \<and>
   create_mipmapped_texture cv this (img\<lparr>cols := 2 ^ k, rows := 0\<rparr>) mipmapsNum
     \<noteq> Some (Inl InvalidDimensions, this')"
proof -
  have z: "is_power_of_two 0" by (simp add: is_power_of_two_def)
  have p: "is_power_of_two (2 ^ k)"
  proof (cases "k < 32")
    case True
    then show ?thesis by (auto simp: is_power_of_two_iff)
  next
    case False
    then have e: "(2 ^ k :: 32 word) = 0" by simp
    show ?thesis unfolding e by (rule z)
  qed
  have "create_mipmapped_texture cv this (img\<lparr>cols := a, rows := b\<rparr>) mipmapsNum
     \<noteq> Some (Inl InvalidDimensions, this')" if "is_power_of_two a" "is_power_of_two b" for a b
    using runtime_error_only_if [of cv this "img\<lparr>cols := a, rows := b\<rparr>" mipmapsNum _ this'] that
    by auto
  with z p show ?thesis by (simp add: is_power_of_two_def)
qed

text \<open>
  The test at 0, 12 and 16, and the check on images with a dimension of 0.
\<close>

theorem is_power_of_two_accepts_zero_witness:
  "is_power_of_two 0 \<and>
   (is_power_of_two 12 \<longleftrightarrow> (12 :: 32 word) AND (12 - 1) = 0) \<and>
   \<not> is_power_of_two 12 \<and>
   is_power_of_two (2 ^ 4) \<and>
   create_mipmapped_texture ocv new_Texture ((Mat_new 16 16 CV_8UC3)\<lparr>cols := 0, rows := 0\<rparr>) 2
     \<noteq> Some (Inl InvalidDimensions, new_Texture\<lparr>mipmaps_num := 2\<rparr>) \<and>
   create_mipmapped_texture ocv new_Texture ((Mat_new 16 16 CV_8UC3)\<lparr>cols := 0, rows := 2 ^ 4\<rparr>) 2
     \<noteq> Some (Inl InvalidDimensions, new_Texture\<lparr>mipmaps_num := 2\<rparr>) \<and>
   create_mipmapped_texture ocv new_Texture ((Mat_new 16 16 CV_8UC3)\<lparr>cols := 2 ^ 4, rows := 0\<rparr>) 2
     \<noteq> Some (Inl InvalidDimensions, new_Texture\<lparr>mipmaps_num := 2\<rparr>)"
proof -
  have "\<not> is_power_of_two 12" by code_simp
  with is_power_of_two_accepts_zero
         [of 12 4 ocv new_Texture "Mat_new 16 16 CV_8UC3" 2 "new_Texture\<lparr>mipmaps_num := 2\<rparr>"]
  show ?thesis by (intro conjI) simp_all
qed

text \<open>
  Claim C3 at the empty image. With two levels asked for and a width and height of 0,
  neither of them a power of two, the call does not throw \<open>InvalidDimensions\<close>: the
  check lets the image through to OpenCV.
\<close>

theorem empty_image_passes_power_of_two_check:
  "create_mipmapped_texture cv this (Mat_new 0 0 CV_8UC3) 2 \<noteq> Some (Inl InvalidDimensions, this')"
  using runtime_error_only_if [of cv this "Mat_new 0 0 CV_8UC3" 2 _ this']
  by (auto simp: Mat_new_def is_power_of_two_def)

text \<open>
  With the stand-in for OpenCV the empty image fails later, in \<open>resize\<close>.
\<close>

theorem empty_image_passes_power_of_two_check_witness:
  "create_mipmapped_texture ocv new_Texture (Mat_new 0 0 CV_8UC3) 2
     \<noteq> Some (Inl InvalidDimensions, new_Texture\<lparr>mipmaps_num := 2\<rparr>) \<and>
   fst (the (create_mipmapped_texture ocv new_Texture (Mat_new 0 0 CV_8UC3) 2))
     = Inl ImageProcessingFailure"
proof -
  have "fst (the (create_mipmapped_texture ocv new_Texture (Mat_new 0 0 CV_8UC3) 2))
          = Inl ImageProcessingFailure"
    by code_simp
  with empty_image_passes_power_of_two_check
         [of ocv new_Texture "new_Texture\<lparr>mipmaps_num := 2\<rparr>"]
  show ?thesis by (intro conjI)
qed

section \<open>The texture after a call\<close>

text \<open>
  After a normal return the two logarithm fields hold \<open>log_uchar\<close> of the width
  and of the height of level 0.
\<close>

lemma log_fields_from_base_level:
  assumes "create_mipmapped_texture cv this img mipmapsNum = Some (Inr (), this')"
  shows "widthLog this' = log_uchar cv (cols (mipmaps this' ! 0)) \<and>
         heightLog this' = log_uchar cv (rows (mipmaps this' ! 0))"
  using assms by (cases rule: create_mipmapped_texture_cases) simp_all

text \<open>
  Claim C8, as amended. When \<open>create_mipmapped_texture\<close> throws, the texture keeps
  its two logarithm fields and the levels it had before the call, in their order at the
  front of the level vector. The level vector is unchanged when the exception is
  \<open>InvalidDimensions\<close> or comes from \<open>convertTo\<close> or \<open>cvtColor\<close>. The private
  field \<open>mipmaps_num\<close> holds the resolved level count.
\<close>

theorem failed_build_keeps_logs_and_earlier_levels:
  assumes run: "create_mipmapped_texture cv this img mipmapsNum = Some (Inl e, this')"
  shows "widthLog this' = widthLog this \<and> heightLog this' = heightLog this \<and>
         (\<exists>ls. mipmaps this' = mipmaps this @ ls) \<and>
         (e = InvalidDimensions \<or> convertTo cv img CV_8UC4 = None \<or>
          (\<exists>m1. convertTo cv img CV_8UC4 = Some m1 \<and> cvtColor cv m1 CV_BGR2BGRA = None)
            \<longrightarrow> mipmaps this' = mipmaps this) \<and>
         (if mipmapsNum = 0 then get_max_possible_mipmaps_num (cols img) (rows img)
          else Some mipmapsNum) = Some (mipmaps_num this')"
  using run
proof (cases rule: create_mipmapped_texture_cases)
  case (loop_failed n m1 m0 e')
  from loop_raises_cv_only [OF loop_failed(5)] have "e' = Cv_Exception" by simp
  with loop_frame [OF loop_failed(5)] loop_failed show ?thesis by auto
qed auto

text \<open>
  A call that fails in \<open>resize\<close> and one that fails the check of the dimensions.
\<close>

theorem failed_build_keeps_logs_and_earlier_levels_witness:
  "create_mipmapped_texture ocv_resize_fails new_Texture (Mat_new 2 2 CV_8UC3) 0
     = Some (Inl ImageProcessingFailure,
             new_Texture\<lparr>mipmaps := [Mat_new 2 2 CV_8UC4], mipmaps_num := 2\<rparr>) \<and>
   widthLog (new_Texture\<lparr>mipmaps := [Mat_new 2 2 CV_8UC4], mipmaps_num := 2\<rparr>)
     = widthLog new_Texture \<and>
   heightLog (new_Texture\<lparr>mipmaps := [Mat_new 2 2 CV_8UC4], mipmaps_num := 2\<rparr>)
     = heightLog new_Texture \<and>
   create_mipmapped_texture ocv new_Texture (Mat_new 50 100 CV_8UC3) 0
     = Some (Inl InvalidDimensions, new_Texture\<lparr>mipmaps_num := 7\<rparr>) \<and>
   mipmaps (new_Texture\<lparr>mipmaps_num := 7\<rparr>) = mipmaps new_Texture"
proof -
  have r: "create_mipmapped_texture ocv_resize_fails new_Texture (Mat_new 2 2 CV_8UC3) 0
     = Some (Inl ImageProcessingFailure,
             new_Texture\<lparr>mipmaps := [Mat_new 2 2 CV_8UC4], mipmaps_num := 2\<rparr>)"
    by code_simp
  have d: "create_mipmapped_texture ocv new_Texture (Mat_new 50 100 CV_8UC3) 0
     = Some (Inl InvalidDimensions, new_Texture\<lparr>mipmaps_num := 7\<rparr>)"
    by code_simp
  from failed_build_keeps_logs_and_earlier_levels [OF r]
       failed_build_keeps_logs_and_earlier_levels [OF d] r d
  show ?thesis by (intro conjI) simp_all
qed

text \<open>
  Claim C8 as first stated says that a failed call leaves the level vector as it was.
  When \<open>resize\<close> throws at level 1 of a 2 by 2 image, level 0 has been appended
  already and stays.
\<close>

theorem failed_build_state_counterexample:
  "create_mipmapped_texture ocv_resize_fails new_Texture (Mat_new 2 2 CV_8UC3) 0
     = Some (Inl ImageProcessingFailure,
             new_Texture\<lparr>mipmaps := [Mat_new 2 2 CV_8UC4], mipmaps_num := 2\<rparr>) \<and>
   mipmaps (new_Texture\<lparr>mipmaps := [Mat_new 2 2 CV_8UC4], mipmaps_num := 2\<rparr>)
     \<noteq> mipmaps new_Texture"
  by code_simp

end
